theory Spec2Isabelle
  imports Main "HOL-Library.AList" "HOL-Library.Multiset" "HOL-Library.Sublist"
begin

section \<open>Python objects seen by the type resolver\<close>

text \<open>
  The resolver receives annotations, defaults and converters as untyped Python objects
  (\<^verbatim>\<open>param_type: Any\<close>), so one datatype holds them all: plain values, the classes
  the code names (\<^verbatim>\<open>str\<close>, \<^verbatim>\<open>int\<close>, \<^verbatim>\<open>float\<close>, \<^verbatim>\<open>Path\<close>, \<^verbatim>\<open>bool\<close>,
  \<^verbatim>\<open>type(None)\<close>), any other class or function (identified by name), and the
  subscripted forms of \<^verbatim>\<open>typing\<close> with their argument tuples.
  \<^verbatim>\<open>PyObject c r\<close> is an instance of another class \<open>c\<close> with representation \<open>r\<close>;
  \<^verbatim>\<open>TGeneric n args\<close> is any subscripted generic whose origin is none of
  \<^verbatim>\<open>Literal\<close>, \<^verbatim>\<open>list\<close>, \<^verbatim>\<open>collections.abc.Iterable\<close>, \<^verbatim>\<open>Union\<close>.
\<close>

datatype py_obj =
    PyNone | PyEllipsis | PyBool bool | PyInt int | PyStr string
  | PyList "py_obj list" | PyObject string string
  | TStr | TInt | TFloat | TPath | TBool | TNoneType
  | TClass string | PyFunction string
  | TLiteral "py_obj list" | TList "py_obj list" | TIterable "py_obj list"
  | TUnion "py_obj list" | TGeneric string "py_obj list"

datatype origin = OLiteral | Olist | OIterable | OUnion | OOther string

text \<open>\<^verbatim>\<open>typing.get_origin\<close>: the unsubscripted origin, \<^verbatim>\<open>None\<close> for anything that is
  not a subscripted form.\<close>

fun get_origin :: "py_obj \<Rightarrow> origin option" where
  "get_origin (TLiteral args) = Some OLiteral"
| "get_origin (TList args) = Some Olist"
| "get_origin (TIterable args) = Some OIterable"
| "get_origin (TUnion args) = Some OUnion"
| "get_origin (TGeneric n args) = Some (OOther n)"
| "get_origin t = None"

text \<open>\<^verbatim>\<open>typing.get_args\<close>: the argument tuple, empty for anything unsubscripted.\<close>

fun get_args :: "py_obj \<Rightarrow> py_obj list" where
  "get_args (TLiteral args) = args"
| "get_args (TList args) = args"
| "get_args (TIterable args) = args"
| "get_args (TUnion args) = args"
| "get_args (TGeneric n args) = args"
| "get_args t = []"

text \<open>The builtin \<^verbatim>\<open>type(x)\<close>.\<close>

fun type_of :: "py_obj \<Rightarrow> py_obj" where
  "type_of PyNone = TNoneType"
| "type_of PyEllipsis = TClass ''ellipsis''"
| "type_of (PyBool b) = TBool"
| "type_of (PyInt i) = TInt"
| "type_of (PyStr s) = TStr"
| "type_of (PyList xs) = TClass ''list''"
| "type_of (PyObject c r) = TClass c"
| "type_of (PyFunction n) = TClass ''function''"
| "type_of (TLiteral args) = TClass ''_GenericAlias''"
| "type_of (TList args) = TClass ''_GenericAlias''"
| "type_of (TIterable args) = TClass ''_GenericAlias''"
| "type_of (TUnion args) = TClass ''_GenericAlias''"
| "type_of (TGeneric n args) = TClass ''_GenericAlias''"
| "type_of t = TClass ''type''"

text \<open>Python's truth value of an object, as \<^verbatim>\<open>or\<close> and \<^verbatim>\<open>if\<close> test it.\<close>

fun truthy :: "py_obj \<Rightarrow> bool" where
  "truthy PyNone = False"
| "truthy (PyBool b) = b"
| "truthy (PyInt i) = (i \<noteq> 0)"
| "truthy (PyStr s) = (s \<noteq> [])"
| "truthy (PyList xs) = (xs \<noteq> [])"
| "truthy x = True"

text \<open>Truth value of an \<^verbatim>\<open>Optional[str]\<close> attribute: \<^verbatim>\<open>None\<close> and the empty string are
  false.\<close>

fun truthy_str :: "string option \<Rightarrow> bool" where
  "truthy_str None = False"
| "truthy_str (Some s) = (s \<noteq> [])"

section \<open>util.py\<close>

definition BASE_TYPES :: "py_obj list" where
  "BASE_TYPES = [TStr, TInt, TFloat, TPath]"

text \<open>Exceptions as values: the resolver's \<^verbatim>\<open>UnsupportedTypeError(arg, annot)\<close>, the
  \<^verbatim>\<open>KeyError\<close> of a dictionary lookup, and what the backend may raise or exit with.\<close>

datatype error =
    UnsupportedTypeError string py_obj
  | KeyError string
  | SystemExit nat
  | TypeError string
  | ValueError string

text \<open>The decorator field \<^verbatim>\<open>Arg\<close>; every attribute defaults to \<^verbatim>\<open>None\<close>.\<close>

record Arg =
  option :: "string option"
  short :: "string option"
  help_Arg :: "string option"
  converter :: "py_obj option"

definition Arg_default :: Arg where
  "Arg_default = \<lparr>option = None, short = None, help_Arg = None, converter = None\<rparr>"

text \<open>The descriptor \<^verbatim>\<open>ArgparseArg\<close>. The unset default is the object \<^verbatim>\<open>...\<close>
  (\<open>PyEllipsis\<close>), as in the source; \<^verbatim>\<open>None\<close> is \<open>PyNone\<close>.\<close>

record ArgparseArg =
  id' :: string
  name :: "string option"
  shorthand :: "string option"
  type :: py_obj
  default' :: py_obj
  action :: "string option"
  choices :: "py_obj list option"
  help' :: "string option"

text \<open>The keyword arguments handed to \<^verbatim>\<open>add_argument\<close>. \<^verbatim>\<open>dest\<close>, \<^verbatim>\<open>action\<close> and
  \<^verbatim>\<open>help\<close> are always present (possibly \<^verbatim>\<open>None\<close>); the other four keys are present
  only when set, which the outer \<open>option\<close> records.\<close>

record kwargs =
  kw_dest :: string
  kw_action :: "string option"
  kw_help :: "string option"
  kw_default :: "py_obj option"
  kw_nargs :: "string option"
  kw_type :: "py_obj option"
  kw_choices :: "py_obj list option"

definition to_argparse :: "ArgparseArg \<Rightarrow> string list \<times> kwargs" where
  "to_argparse self =
    (let args = [];
         args = (if truthy_str (name self) then args @ [the (name self)] else args);
         args = (if truthy_str (shorthand self) then args @ [the (shorthand self)] else args);
         kw = \<lparr>kw_dest = id' self, kw_action = action self, kw_help = help' self,
               kw_default = None, kw_nargs = None, kw_type = None, kw_choices = None\<rparr>;
         kw = (if default' self \<noteq> PyEllipsis then kw\<lparr>kw_default := Some (default' self)\<rparr> else kw);
         kw = (if \<not> truthy_str (name self) \<and> default' self \<noteq> PyEllipsis
               then kw\<lparr>kw_nargs := Some ''?''\<rparr> else kw);
         kw = (if type self \<noteq> PyNone then kw\<lparr>kw_type := Some (type self)\<rparr> else kw);
         kw = (if choices self \<noteq> None then kw\<lparr>kw_choices := choices self\<rparr> else kw)
     in (args, kw))"

text \<open>\<^verbatim>\<open>find_base_type\<close>: the loop runs over \<^verbatim>\<open>BASE_TYPES\<close> and returns the first base
  type that occurs in \<open>args\<close>.\<close>

definition find_base_type :: "py_obj list \<Rightarrow> py_obj \<Rightarrow> py_obj" where
  "find_base_type args default_type =
    (case find (\<lambda>base_type. base_type \<in> set args) BASE_TYPES of
       Some base_type \<Rightarrow> base_type
     | None \<Rightarrow> default_type)"

function get_arg ::
  "string \<Rightarrow> py_obj \<Rightarrow> string option \<Rightarrow> string option \<Rightarrow> string option \<Rightarrow> py_obj \<Rightarrow> bool
     \<Rightarrow> error + ArgparseArg" where
  "get_arg param param_type nm sh hlp dflt skip_resolve =
    (let arg0 = \<lparr>id' = param, name = nm, shorthand = sh, type = param_type,
                 default' = PyEllipsis, action = None, choices = None, help' = hlp\<rparr>;
         arg = (if dflt \<noteq> PyEllipsis then arg0\<lparr>default' := dflt\<rparr> else arg0)
     in if skip_resolve then Inr arg
        else if param_type \<in> set BASE_TYPES then Inr (arg\<lparr>type := param_type\<rparr>)
        else if param_type = TBool then
          Inr (arg\<lparr>type := PyNone, default' := PyBool False, action := Some ''store_true''\<rparr>)
        else (case get_origin param_type of
            None \<Rightarrow> Inl (UnsupportedTypeError param param_type)
          | Some origin \<Rightarrow>
             (let args = get_args param_type in
              if origin = OLiteral \<and> length args \<noteq> 0 then
                Inr (arg\<lparr>choices := Some args, type := type_of (hd args)\<rparr>)
              else if origin \<in> {Olist, OIterable} then
                Inr (arg\<lparr>type := find_base_type args TStr, action := Some ''append''\<rparr>)
              else if origin = OUnion \<and> filter (\<lambda>a. a \<noteq> TNoneType) args \<noteq> [] then
                get_arg param (hd (filter (\<lambda>a. a \<noteq> TNoneType) args)) nm None hlp dflt False
              else Inl (UnsupportedTypeError param param_type))))"
  by pat_completeness auto
termination
proof (relation "measure (\<lambda>(param, param_type, rest). size param_type)")
  show "wf (measure (\<lambda>(param, param_type, rest). size param_type))"
    by simp
next
  fix param :: string and param_type :: py_obj and x2 :: origin and xb :: "py_obj list"
  fix sh :: "string option" and nm :: "string option" and hlp :: "string option"
  fix dflt :: py_obj and skip_resolve :: bool
  assume origin: "get_origin param_type = Some x2" and args: "xb = get_args param_type"
    and union: "x2 = OUnion \<and> filter (\<lambda>a. a \<noteq> TNoneType) xb \<noteq> []"
  from origin union obtain ts where t: "param_type = TUnion ts"
    by (cases param_type) simp_all
  from union have "hd (filter (\<lambda>a. a \<noteq> TNoneType) xb) \<in> set (filter (\<lambda>a. a \<noteq> TNoneType) xb)"
    by (intro hd_in_set) simp
  then have "hd (filter (\<lambda>a. a \<noteq> TNoneType) xb) \<in> set ts"
    using args t by simp
  then have "size (hd (filter (\<lambda>a. a \<noteq> TNoneType) xb)) \<le> size_list size ts"
    by (simp add: size_list_estimation')
  then show "((param, hd (filter (\<lambda>a. a \<noteq> TNoneType) xb), nm, None, hlp, dflt, False),
              (param, param_type, nm, sh, hlp, dflt, skip_resolve))
             \<in> measure (\<lambda>(param, param_type, rest). size param_type)"
    using t by simp
qed

declare get_arg.simps [simp del]

text \<open>\<^verbatim>\<open>get_type_name\<close> reads the \<^verbatim>\<open>__name__\<close> attribute and \<^verbatim>\<open>str()\<close> of an object. What
  these give for a \<^verbatim>\<open>typing\<close> form depends on the Python release, so both are taken as
  given: \<open>dunder_name rt x\<close> is \<open>None\<close> when \<^verbatim>\<open>hasattr(x, "__name__")\<close> is false.\<close>

record py_runtime =
  dunder_name :: "py_obj \<Rightarrow> string option"
  str_of :: "py_obj \<Rightarrow> string"

text \<open>\<^verbatim>\<open>s.rsplit(".", 1)[-1]\<close>: what follows the last dot, the whole string without one.\<close>

definition rsplit_last :: "string \<Rightarrow> string" where
  "rsplit_last s = rev (takeWhile (\<lambda>c. c \<noteq> CHR ''.'') (rev s))"

definition get_type_name :: "py_runtime \<Rightarrow> py_obj \<Rightarrow> string" where
  "get_type_name rt arg_type =
    (case dunder_name rt arg_type of
       Some n \<Rightarrow> n
     | None \<Rightarrow> rsplit_last (str_of rt arg_type))"

section \<open>The module \<^verbatim>\<open>__init__.py\<close>\<close>

text \<open>What \<^verbatim>\<open>inspect.signature\<close> reports for a function: its parameters in declared
  order, each with annotation and default; \<^verbatim>\<open>Parameter.empty\<close> marks a missing one.
  Python dictionaries are association lists in insertion order, read with \<open>map_of\<close>
  and written with \<open>AList.update\<close> (an existing key keeps its place, a new one goes
  last).\<close>

definition Parameter_empty :: py_obj where
  "Parameter_empty = TClass ''_empty''"

record Parameter =
  annotation :: py_obj
  default_P :: py_obj

record py_callable =
  parameters :: "(string \<times> Parameter) list"
  doc :: "string option"

record Command =
  cmd_name :: string
  cmd_func :: py_callable
  cmd_args :: "ArgparseArg list"
  cmd_description :: "string option"
  cmd_allow_extra :: bool

record Radicli =
  cli_name :: string
  cli_help :: "string option"
  converters :: "(py_obj \<times> py_obj) list"
  extra_key :: string
  registry :: "(string \<times> Command) list"

text \<open>\<^verbatim>\<open>Radicli.__init__\<close>, with the defaults of its keyword arguments left to the
  caller.\<close>

definition Radicli_init ::
  "string \<Rightarrow> string option \<Rightarrow> (py_obj \<times> py_obj) list \<Rightarrow> string \<Rightarrow> Radicli" where
  "Radicli_init nm hlp convs ek =
    \<lparr>cli_name = nm, cli_help = hlp, converters = convs, extra_key = ek, registry = []\<rparr>"

text \<open>The first loop of \<^verbatim>\<open>cli_wrapper\<close> (lines 54 to 62), one step per parameter of the
  signature: it records type and default and adds an empty \<^verbatim>\<open>Arg()\<close> for a parameter
  the decorator did not mention.\<close>

type_synonym sig_state =
  "(string \<times> py_obj) list \<times> (string \<times> py_obj) list \<times> (string \<times> Arg) list"

fun sig_step :: "sig_state \<Rightarrow> string \<times> Parameter \<Rightarrow> sig_state" where
  "sig_step (sig_types, sig_defaults, args) (param_name, param_value) =
    (AList.update param_name (annotation param_value) sig_types,
     AList.update param_name
       (if default_P param_value \<noteq> Parameter_empty then default_P param_value else PyEllipsis)
       sig_defaults,
     (if map_of args param_name = None then AList.update param_name Arg_default args else args))"

text \<open>The body of the second loop (lines 65 to 76) for one item \<open>(param, arg)\<close> of
  \<^verbatim>\<open>args.items()\<close>. A key of \<open>args\<close> that is no parameter makes \<^verbatim>\<open>sig_types[param]\<close>
  raise \<^verbatim>\<open>KeyError\<close>. \<^verbatim>\<open>converters.get(t, arg.converter)\<close> returns the table's entry
  when there is one, whatever its value, and \<^verbatim>\<open>arg.converter\<close> otherwise; \<open>PyNone\<close> is
  Python's \<^verbatim>\<open>None\<close>, in the table as in the override. \<^verbatim>\<open>converter or t\<close> takes the
  converter when it is true as a Python object, which every function and class is.\<close>

definition cli_arg ::
  "Radicli \<Rightarrow> py_runtime \<Rightarrow> (string \<times> py_obj) list \<Rightarrow> (string \<times> py_obj) list
     \<Rightarrow> string \<Rightarrow> Arg \<Rightarrow> error + ArgparseArg" where
  "cli_arg self rt sig_types sig_defaults param arg =
    (case map_of sig_types param of
       None \<Rightarrow> Inl (KeyError param)
     | Some sig_type \<Rightarrow>
        (let conv = (case map_of (converters self) sig_type of
                       Some c \<Rightarrow> c
                     | None \<Rightarrow> (case converter arg of Some c \<Rightarrow> c | None \<Rightarrow> PyNone));
             arg_type = (if truthy conv then conv else sig_type)
         in case map_of sig_defaults param of
              None \<Rightarrow> Inl (KeyError param)
            | Some sig_default \<Rightarrow>
               (case get_arg param arg_type (option arg) (short arg) (help_Arg arg)
                       sig_default (conv \<noteq> PyNone) of
                  Inl e \<Rightarrow> Inl e
                | Inr a \<Rightarrow>
                   Inr (a\<lparr>help' := Some (''('' @ get_type_name rt arg_type @ '') '' @
                           (if truthy_str (help' a) then the (help' a) else []))\<rparr>))))"

text \<open>The second loop (lines 64 to 77) over \<^verbatim>\<open>args.items()\<close>, collecting \<open>cli_args\<close>;
  the first exception ends it.\<close>

fun cli_args_loop ::
  "Radicli \<Rightarrow> py_runtime \<Rightarrow> (string \<times> py_obj) list \<Rightarrow> (string \<times> py_obj) list
     \<Rightarrow> (string \<times> Arg) list \<Rightarrow> error + ArgparseArg list" where
  "cli_args_loop self rt sig_types sig_defaults [] = Inr []"
| "cli_args_loop self rt sig_types sig_defaults ((param, arg) # rest) =
    (case cli_arg self rt sig_types sig_defaults param arg of
       Inl e \<Rightarrow> Inl e
     | Inr a \<Rightarrow>
        (case cli_args_loop self rt sig_types sig_defaults rest of
           Inl e \<Rightarrow> Inl e
         | Inr cli_args \<Rightarrow> Inr (a # cli_args)))"

text \<open>\<^verbatim>\<open>cli_wrapper\<close>, the function that \<^verbatim>\<open>_command(name, args, allow_extra)\<close> returns,
  applied to \<open>cli_func\<close>. The registry update is the effect; the source returns
  \<open>cli_func\<close> unchanged.\<close>

definition cli_wrapper ::
  "Radicli \<Rightarrow> py_runtime \<Rightarrow> string \<Rightarrow> (string \<times> Arg) list \<Rightarrow> bool \<Rightarrow> py_callable
     \<Rightarrow> error + Radicli" where
  "cli_wrapper self rt nm args allow cli_func =
    (case foldl sig_step ([], [], args) (parameters cli_func) of
       (sig_types, sig_defaults, args') \<Rightarrow>
         (case cli_args_loop self rt sig_types sig_defaults args' of
            Inl e \<Rightarrow> Inl e
          | Inr cli_args \<Rightarrow>
              (let cmd = \<lparr>cmd_name = nm, cmd_func = cli_func, cmd_args = cli_args,
                          cmd_description = doc cli_func, cmd_allow_extra = allow\<rparr>
               in Inr (self\<lparr>registry := AList.update nm cmd (registry self)\<rparr>))))"

definition command ::
  "Radicli \<Rightarrow> py_runtime \<Rightarrow> string \<Rightarrow> (string \<times> Arg) list \<Rightarrow> py_callable \<Rightarrow> error + Radicli" where
  "command self rt nm args cli_func = cli_wrapper self rt nm args False cli_func"

definition command_with_extra ::
  "Radicli \<Rightarrow> py_runtime \<Rightarrow> string \<Rightarrow> (string \<times> Arg) list \<Rightarrow> py_callable \<Rightarrow> error + Radicli" where
  "command_with_extra self rt nm args cli_func = cli_wrapper self rt nm args True cli_func"

subsection \<open>The parsing backend\<close>

text \<open>
  \<^verbatim>\<open>argparse\<close> is outside the repository. A parser is represented by what the code has
  told it: its description and the \<^verbatim>\<open>add_argument\<close> calls accepted so far, in order.
  What a Python callable returns for a token (the \<^verbatim>\<open>type\<close> of an argument) is a
  parameter: \<open>call B f s\<close> is \<open>None\<close> when the call raises.
\<close>

record parser =
  description :: "string option"
  arguments :: "(string list \<times> kwargs) list"

record backend =
  call :: "py_obj \<Rightarrow> string \<Rightarrow> py_obj option"

definition ArgumentParser :: "string option \<Rightarrow> parser" where
  "ArgumentParser descr = \<lparr>description = descr, arguments = []\<rparr>"

text \<open>Modelled from the spec: a token of the backend's flag/value grammar (section 4.4). A
  token that starts with \<^verbatim>\<open>-\<close> and is longer than that names a flag; any other token is
  a plain value.\<close>

definition plain :: "string \<Rightarrow> bool" where
  "plain t \<longleftrightarrow> (case t of [] \<Rightarrow> True | c # cs \<Rightarrow> c \<noteq> CHR ''-'' \<or> cs = [])"

text \<open>Modelled from the spec: \<^verbatim>\<open>ArgumentParser.add_argument\<close> of the external backend, which
  takes one projected descriptor into the grammar (section 4.4, step 1). Two calls are
  refused, as \<^verbatim>\<open>argparse\<close> documents: the presence-only action \<^verbatim>\<open>store_true\<close> takes
  no \<^verbatim>\<open>nargs\<close>, \<^verbatim>\<open>type\<close> or \<^verbatim>\<open>choices\<close> (\<^verbatim>\<open>TypeError\<close>), and a flag name must start
  with \<^verbatim>\<open>-\<close> (\<^verbatim>\<open>ValueError\<close>). Clashes between flag names and the help flag that
  \<^verbatim>\<open>argparse\<close> adds by itself are left out.\<close>

definition add_argument :: "parser \<Rightarrow> string list \<Rightarrow> kwargs \<Rightarrow> error + parser" where
  "add_argument p func_args func_kwargs =
    (if kw_action func_kwargs = Some ''store_true'' \<and>
        (kw_nargs func_kwargs \<noteq> None \<or> kw_type func_kwargs \<noteq> None
         \<or> kw_choices func_kwargs \<noteq> None)
     then Inl (TypeError ''unexpected keyword argument'')
     else if list_ex (\<lambda>s. case s of [] \<Rightarrow> True | c # cs \<Rightarrow> c \<noteq> CHR ''-'') func_args
     then Inl (ValueError ''invalid option string'')
     else Inr (p\<lparr>arguments := arguments p @ [(func_args, func_kwargs)]\<rparr>))"

text \<open>Modelled from the spec: which arguments of the grammar the backend requires
  (section 7, missing required value). As \<^verbatim>\<open>argparse\<close> documents, an argument with flag
  names may always be omitted unless \<^verbatim>\<open>required\<close> is passed, which the projection
  never does; a positional argument is required unless its \<^verbatim>\<open>nargs\<close> is \<^verbatim>\<open>?\<close>.\<close>

definition required :: "string list \<times> kwargs \<Rightarrow> bool" where
  "required spec \<longleftrightarrow> fst spec = [] \<and> kw_nargs (snd spec) \<noteq> Some ''?''"

text \<open>Modelled from the spec: the namespace before any token is read. Every destination
  is bound to its argument's default, \<^verbatim>\<open>None\<close> when the projection passed no default;
  the first argument with a destination decides.\<close>

definition initial :: "kwargs \<Rightarrow> py_obj" where
  "initial kw = (case kw_default kw of Some d \<Rightarrow> d | None \<Rightarrow> PyNone)"

definition defaults :: "(string list \<times> kwargs) list \<Rightarrow> (string \<times> py_obj) list" where
  "defaults G =
    foldl (\<lambda>ns spec. if map_of ns (kw_dest (snd spec)) = None
                      then ns @ [(kw_dest (snd spec), initial (snd spec))] else ns) [] G"

text \<open>Modelled from the spec: the value of one token for an argument (sections 3 and 4.4):
  the token itself when the argument has no type-coercion function, else what the
  function returns for it, and \<open>None\<close> for a type-coercion failure or a value outside
  the choice restriction. \<^verbatim>\<open>str\<close> returns the token.\<close>

definition get_value :: "backend \<Rightarrow> kwargs \<Rightarrow> string \<Rightarrow> py_obj option" where
  "get_value B kw s =
    (case (case kw_type kw of
             None \<Rightarrow> Some (PyStr s)
           | Some f \<Rightarrow> if f = TStr then Some (PyStr s) else call B f s) of
       None \<Rightarrow> None
     | Some x \<Rightarrow>
        (case kw_choices kw of
           None \<Rightarrow> Some x
         | Some cs \<Rightarrow> if x \<in> set cs then Some x else None))"

text \<open>Modelled from the spec: binding a value (section 3, multiplicity). A single-valued
  argument is bound to the value; a repeated one (\<^verbatim>\<open>append\<close>) collects its values in
  arrival order.\<close>

definition take_action :: "kwargs \<Rightarrow> py_obj \<Rightarrow> (string \<times> py_obj) list \<Rightarrow> (string \<times> py_obj) list" where
  "take_action kw x ns =
    (if kw_action kw = Some ''append''
     then AList.update (kw_dest kw)
            (PyList ((case map_of ns (kw_dest kw) of Some (PyList xs) \<Rightarrow> xs | _ \<Rightarrow> []) @ [x])) ns
     else AList.update (kw_dest kw) x ns)"

text \<open>Modelled from the spec: the backend's pass over the token list (section 4.4, step 2),
  from left to right, with the namespace \<open>ns\<close>, the positional arguments \<open>pos\<close> not yet
  filled and the unrecognised tokens \<open>extras\<close> collected so far.
  A token that is a flag name of the grammar \<open>G\<close> is recognised: a presence-only flag
  binds \<^verbatim>\<open>True\<close> and consumes nothing more; any other flag consumes the next token as
  its value when that is a plain value, and without one is an error, unless its
  \<^verbatim>\<open>nargs\<close> is \<^verbatim>\<open>?\<close>, when it binds \<^verbatim>\<open>None\<close>.
  Any other token that names a flag matches no argument and is collected.
  A plain value fills the next positional argument; when none is left it matches no
  argument and is collected too.
  At the end a required argument that was not filled is an error.
  Flag names are matched as written: abbreviated flags, \<^verbatim>\<open>--flag=value\<close> and the
  separator \<^verbatim>\<open>--\<close> of \<^verbatim>\<open>argparse\<close> are left out.\<close>

fun parse_tokens ::
  "backend \<Rightarrow> (string list \<times> kwargs) list \<Rightarrow> (string \<times> py_obj) list
     \<Rightarrow> (string list \<times> kwargs) list \<Rightarrow> string list \<Rightarrow> string list
     \<Rightarrow> error + ((string \<times> py_obj) list \<times> string list)" where
  "parse_tokens B G ns pos extras [] =
    (if list_ex required pos then Inl (SystemExit 2) else Inr (ns, extras))"
| "parse_tokens B G ns pos extras (t # ts) =
    (case find (\<lambda>spec. t \<in> set (fst spec)) G of
       Some spec \<Rightarrow>
        (if kw_action (snd spec) = Some ''store_true'' then
           parse_tokens B G (AList.update (kw_dest (snd spec)) (PyBool True) ns) pos extras ts
         else if ts \<noteq> [] \<and> plain (hd ts) then
           (case get_value B (snd spec) (hd ts) of
              None \<Rightarrow> Inl (SystemExit 2)
            | Some x \<Rightarrow> parse_tokens B G (take_action (snd spec) x ns) pos extras (tl ts))
         else if kw_nargs (snd spec) = Some ''?'' then
           parse_tokens B G (take_action (snd spec) PyNone ns) pos extras ts
         else Inl (SystemExit 2))
     | None \<Rightarrow>
        (if \<not> plain t then parse_tokens B G ns pos (extras @ [t]) ts
         else (case pos of
            [] \<Rightarrow> parse_tokens B G ns pos (extras @ [t]) ts
          | spec # pos' \<Rightarrow>
             (case get_value B (snd spec) t of
                None \<Rightarrow> Inl (SystemExit 2)
              | Some x \<Rightarrow> parse_tokens B G (take_action (snd spec) x ns) pos' extras ts))))"

text \<open>Modelled from the spec: \<^verbatim>\<open>ArgumentParser.parse_known_args\<close> of the external backend
  (section 4.4, step 2, with \<^verbatim>\<open>allow_extra\<close> true): the namespace and the unrecognised
  tokens, or a fatal parse error.\<close>

definition parse_known_args ::
  "backend \<Rightarrow> parser \<Rightarrow> string list \<Rightarrow> error + ((string \<times> py_obj) list \<times> string list)" where
  "parse_known_args B p args =
    parse_tokens B (arguments p) (defaults (arguments p))
      (filter (\<lambda>spec. fst spec = []) (arguments p)) [] args"

text \<open>Modelled from the spec: \<^verbatim>\<open>ArgumentParser.parse_args\<close> of the external backend, the
  strict entry point. Section 4.4 of the specification: with \<^verbatim>\<open>allow_extra\<close> false any
  unrecognised token is a fatal parse error, the process exits with a non-zero
  status. It is \<^verbatim>\<open>parse_known_args\<close> followed by that exit when tokens are left over.\<close>

definition parse_args :: "backend \<Rightarrow> parser \<Rightarrow> string list \<Rightarrow> error + (string \<times> py_obj) list" where
  "parse_args B p args =
    (case parse_known_args B p args of
       Inl e \<Rightarrow> Inl e
     | Inr (namespace, argv) \<Rightarrow> if argv \<noteq> [] then Inl (SystemExit 2) else Inr namespace)"

text \<open>The loop of \<^verbatim>\<open>Radicli.parse\<close> over \<open>arg_info\<close> (lines 124 to 128).\<close>

fun add_arguments :: "Radicli \<Rightarrow> parser \<Rightarrow> ArgparseArg list \<Rightarrow> error + parser" where
  "add_arguments self p [] = Inr p"
| "add_arguments self p (arg # arg_info) =
    (if id' arg = extra_key self then add_arguments self p arg_info
     else (case to_argparse arg of
        (func_args, func_kwargs) \<Rightarrow>
          (case add_argument p func_args func_kwargs of
             Inl e \<Rightarrow> Inl e
           | Inr p' \<Rightarrow> add_arguments self p' arg_info)))"

text \<open>\<^verbatim>\<open>Radicli.parse\<close>.\<close>

definition parse ::
  "Radicli \<Rightarrow> backend \<Rightarrow> string list \<Rightarrow> ArgparseArg list \<Rightarrow> string option \<Rightarrow> bool
     \<Rightarrow> error + (string \<times> py_obj) list" where
  "parse self B args arg_info descr allow =
    (case add_arguments self (ArgumentParser descr) arg_info of
       Inl e \<Rightarrow> Inl e
     | Inr p \<Rightarrow>
        if allow then
          (case parse_known_args B p args of
             Inl e \<Rightarrow> Inl e
           | Inr (namespace, extra) \<Rightarrow>
               Inr (AList.update (extra_key self) (PyList (map PyStr extra)) namespace))
        else parse_args B p args)"

section \<open>Supported types, in the specification's words\<close>

text \<open>The type on which resolution ends: \<open>get_arg\<close> passes from a union to its first
  variant other than \<^verbatim>\<open>type(None)\<close>, and again from there, until the type is no union
  or has no such variant.\<close>

function first_variant :: "py_obj \<Rightarrow> py_obj" where
  "first_variant t =
    (if get_origin t = Some OUnion \<and> filter (\<lambda>a. a \<noteq> TNoneType) (get_args t) \<noteq> []
     then first_variant (hd (filter (\<lambda>a. a \<noteq> TNoneType) (get_args t)))
     else t)"
  by pat_completeness auto
termination
proof (relation "measure size")
  show "wf (measure size)" by simp
next
  fix t :: py_obj
  assume union: "get_origin t = Some OUnion \<and> filter (\<lambda>a. a \<noteq> TNoneType) (get_args t) \<noteq> []"
  then obtain ts where t: "t = TUnion ts"
    by (cases t) simp_all
  from union have "hd (filter (\<lambda>a. a \<noteq> TNoneType) (get_args t)) \<in> set (filter (\<lambda>a. a \<noteq> TNoneType) (get_args t))"
    by (intro hd_in_set) simp
  then have "hd (filter (\<lambda>a. a \<noteq> TNoneType) (get_args t)) \<in> set ts"
    using t by simp
  then have "size (hd (filter (\<lambda>a. a \<noteq> TNoneType) (get_args t))) \<le> size_list size ts"
    by (simp add: size_list_estimation')
  then show "(hd (filter (\<lambda>a. a \<noteq> TNoneType) (get_args t)), t) \<in> measure size"
    using t by simp
qed

declare first_variant.simps [simp del]

text \<open>The specification's words for the types the resolver supports (sections 4.1 and 7):
  a known primitive, a boolean flag, a literal type with at least one option, a
  sequence or iterable; and an optional/union type is reduced to its first non-null
  variant (4.1, step 6), so it is supported when that variant is.\<close>

definition handled :: "py_obj \<Rightarrow> bool" where
  "handled t \<longleftrightarrow>
     t \<in> set BASE_TYPES \<or> t = TBool \<or>
     (get_origin t = Some OLiteral \<and> get_args t \<noteq> []) \<or>
     get_origin t = Some Olist \<or> get_origin t = Some OIterable"

definition reducible :: "py_obj \<Rightarrow> bool" where
  "reducible t \<longleftrightarrow> handled (first_variant t)"

section \<open>The resolver, branch by branch\<close>

lemma get_arg_skip:
  "get_arg p t n s h d True =
     Inr \<lparr>id' = p, name = n, shorthand = s, type = t, default' = d,
          action = None, choices = None, help' = h\<rparr>"
  by (subst get_arg.simps) (simp add: Let_def)

lemma get_arg_base:
  "t \<in> set BASE_TYPES \<Longrightarrow> get_arg p t n s h d False =
     Inr \<lparr>id' = p, name = n, shorthand = s, type = t, default' = d,
          action = None, choices = None, help' = h\<rparr>"
  by (subst get_arg.simps) (simp add: Let_def)

lemma get_arg_bool:
  "get_arg p TBool n s h d False =
     Inr \<lparr>id' = p, name = n, shorthand = s, type = PyNone, default' = PyBool False,
          action = Some ''store_true'', choices = None, help' = h\<rparr>"
  by (subst get_arg.simps) (simp add: Let_def BASE_TYPES_def)

lemma get_arg_no_origin:
  "t \<notin> set BASE_TYPES \<Longrightarrow> t \<noteq> TBool \<Longrightarrow> get_origin t = None \<Longrightarrow>
   get_arg p t n s h d False = Inl (UnsupportedTypeError p t)"
  by (subst get_arg.simps) (simp add: Let_def)

lemma get_arg_literal:
  "vs \<noteq> [] \<Longrightarrow> get_arg p (TLiteral vs) n s h d False =
     Inr \<lparr>id' = p, name = n, shorthand = s, type = type_of (hd vs), default' = d,
          action = None, choices = Some vs, help' = h\<rparr>"
  by (subst get_arg.simps) (simp add: Let_def BASE_TYPES_def)

lemma get_arg_literal_empty:
  "get_arg p (TLiteral []) n s h d False = Inl (UnsupportedTypeError p (TLiteral []))"
  by (subst get_arg.simps) (simp add: Let_def BASE_TYPES_def)

lemma get_arg_list:
  "get_arg p (TList args) n s h d False =
     Inr \<lparr>id' = p, name = n, shorthand = s, type = find_base_type args TStr,
          default' = d, action = Some ''append'', choices = None, help' = h\<rparr>"
  by (subst get_arg.simps) (simp add: Let_def BASE_TYPES_def)

lemma get_arg_iterable:
  "get_arg p (TIterable args) n s h d False =
     Inr \<lparr>id' = p, name = n, shorthand = s, type = find_base_type args TStr,
          default' = d, action = Some ''append'', choices = None, help' = h\<rparr>"
  by (subst get_arg.simps) (simp add: Let_def BASE_TYPES_def)

lemma get_arg_generic:
  "get_arg p (TGeneric g args) n s h d False = Inl (UnsupportedTypeError p (TGeneric g args))"
  by (subst get_arg.simps) (simp add: Let_def BASE_TYPES_def)

lemma get_arg_union:
  "filter (\<lambda>a. a \<noteq> TNoneType) args \<noteq> [] \<Longrightarrow>
   get_arg p (TUnion args) n s h d False =
   get_arg p (hd (filter (\<lambda>a. a \<noteq> TNoneType) args)) n None h d False"
  by (subst get_arg.simps) (simp add: Let_def BASE_TYPES_def)

lemma get_arg_union_none:
  "filter (\<lambda>a. a \<noteq> TNoneType) args = [] \<Longrightarrow>
   get_arg p (TUnion args) n s h d False = Inl (UnsupportedTypeError p (TUnion args))"
  by (subst get_arg.simps) (simp add: Let_def BASE_TYPES_def)



lemma first_variant_size:
  assumes "filter (\<lambda>a. a \<noteq> TNoneType) args \<noteq> []"
  shows "size (hd (filter (\<lambda>a. a \<noteq> TNoneType) args)) < size (TUnion args)"
proof -
  from assms have "hd (filter (\<lambda>a. a \<noteq> TNoneType) args) \<in> set (filter (\<lambda>a. a \<noteq> TNoneType) args)"
    by (rule hd_in_set)
  then have "hd (filter (\<lambda>a. a \<noteq> TNoneType) args) \<in> set args"
    by simp
  then have "size (hd (filter (\<lambda>a. a \<noteq> TNoneType) args)) \<le> size_list size args"
    by (simp add: size_list_estimation')
  then show ?thesis by simp
qed

lemma get_arg_not_union:
  assumes "get_origin t \<noteq> Some OUnion"
  shows "get_arg p t n s h d False =
    (if t \<in> set BASE_TYPES then
       Inr \<lparr>id' = p, name = n, shorthand = s, type = t, default' = d,
            action = None, choices = None, help' = h\<rparr>
     else if t = TBool then
       Inr \<lparr>id' = p, name = n, shorthand = s, type = PyNone, default' = PyBool False,
            action = Some ''store_true'', choices = None, help' = h\<rparr>
     else if get_origin t = Some OLiteral \<and> get_args t \<noteq> [] then
       Inr \<lparr>id' = p, name = n, shorthand = s, type = type_of (hd (get_args t)),
            default' = d, action = None, choices = Some (get_args t), help' = h\<rparr>
     else if get_origin t \<in> {Some Olist, Some OIterable} then
       Inr \<lparr>id' = p, name = n, shorthand = s, type = find_base_type (get_args t) TStr,
            default' = d, action = Some ''append'', choices = None, help' = h\<rparr>
     else Inl (UnsupportedTypeError p t))"
  using assms by (subst get_arg.simps) (auto simp: Let_def split: option.splits)

lemma get_arg_fields:
  "get_arg p t n s h d sk = Inr a \<Longrightarrow>
     id' a = p \<and> name a = n \<and> help' a = h \<and> (shorthand a = s \<or> shorthand a = None)"
proof (induction "size t" arbitrary: t s sk rule: less_induct)
  case less
  show ?case
  proof (cases sk)
    case True
    with less.prems show ?thesis by (auto simp: get_arg_skip)
  next
    case False
    show ?thesis
    proof (cases "get_origin t = Some OUnion")
      case no: False
      with less.prems \<open>\<not> sk\<close> show ?thesis
        by (auto simp: get_arg_not_union split: if_splits)
    next
      case True
      then obtain args where t: "t = TUnion args" by (cases t) simp_all
      show ?thesis
      proof (cases "filter (\<lambda>a. a \<noteq> TNoneType) args = []")
        case True
        with less.prems \<open>\<not> sk\<close> t show ?thesis by (simp add: get_arg_union_none)
      next
        case ne: False
        with less.prems \<open>\<not> sk\<close> t
        have "get_arg p (hd (filter (\<lambda>a. a \<noteq> TNoneType) args)) n None h d False = Inr a"
          by (simp add: get_arg_union)
        with less.hyps [OF _ this] first_variant_size [OF ne] t show ?thesis by simp
      qed
    qed
  qed
qed


lemma first_variant_not_union: "get_origin t \<noteq> Some OUnion \<Longrightarrow> first_variant t = t"
  by (subst first_variant.simps) simp

lemma first_variant_union:
  "filter (\<lambda>a. a \<noteq> TNoneType) args \<noteq> [] \<Longrightarrow>
   first_variant (TUnion args) = first_variant (hd (filter (\<lambda>a. a \<noteq> TNoneType) args))"
  by (subst first_variant.simps) simp

lemma first_variant_union_none:
  "filter (\<lambda>a. a \<noteq> TNoneType) args = [] \<Longrightarrow> first_variant (TUnion args) = TUnion args"
  by (subst first_variant.simps) simp

lemma handled_union: "\<not> handled (TUnion args)"
  by (simp add: handled_def BASE_TYPES_def)


lemma get_arg_unsupported:
  "\<not> handled (first_variant t) \<Longrightarrow>
   get_arg p t n s h d False = Inl (UnsupportedTypeError p (first_variant t))"
proof (induction "size t" arbitrary: t s rule: less_induct)
  case less
  show ?case
  proof (cases "get_origin t = Some OUnion")
    case False
    with less.prems show ?thesis
      by (auto simp: first_variant_not_union get_arg_not_union handled_def)
  next
    case True
    then obtain args where t: "t = TUnion args" by (cases t) simp_all
    show ?thesis
    proof (cases "filter (\<lambda>a. a \<noteq> TNoneType) args = []")
      case True
      then show ?thesis
        using t by (simp add: first_variant_union_none get_arg_union_none)
    next
      case ne: False
      let ?u = "hd (filter (\<lambda>a. a \<noteq> TNoneType) args)"
      have sz: "size ?u < size t" using first_variant_size [OF ne] t by simp
      from less.prems have "\<not> handled (first_variant ?u)"
        using t ne by (simp add: first_variant_union)
      from less.hyps [OF sz this] show ?thesis
        using t ne by (simp add: first_variant_union get_arg_union)
    qed
  qed
qed

lemma get_arg_supported:
  "handled (first_variant t) \<Longrightarrow> \<exists>a. get_arg p t n s h d False = Inr a"
proof (induction "size t" arbitrary: t s rule: less_induct)
  case less
  show ?case
  proof (cases "get_origin t = Some OUnion")
    case False
    with less.prems show ?thesis
      by (auto simp: first_variant_not_union get_arg_not_union handled_def)
  next
    case True
    then obtain args where t: "t = TUnion args" by (cases t) simp_all
    show ?thesis
    proof (cases "filter (\<lambda>a. a \<noteq> TNoneType) args = []")
      case True
      with less.prems show ?thesis
        using t by (simp add: first_variant_union_none handled_union)
    next
      case ne: False
      let ?u = "hd (filter (\<lambda>a. a \<noteq> TNoneType) args)"
      have sz: "size ?u < size t" using first_variant_size [OF ne] t by simp
      from less.prems have "handled (first_variant ?u)"
        using t ne by (simp add: first_variant_union)
      from less.hyps [OF sz this] show ?thesis
        using t ne by (simp add: get_arg_union)
    qed
  qed
qed

lemma get_arg_default:
  "get_arg p t n s h d sk = Inr a \<Longrightarrow>
     (if action a = Some ''store_true'' then default' a = PyBool False else default' a = d)"
proof (induction "size t" arbitrary: t s sk rule: less_induct)
  case less
  show ?case
  proof (cases sk)
    case True
    with less.prems show ?thesis by (auto simp: get_arg_skip)
  next
    case False
    show ?thesis
    proof (cases "get_origin t = Some OUnion")
      case no: False
      with less.prems \<open>\<not> sk\<close> show ?thesis
        by (auto simp: get_arg_not_union split: if_splits)
    next
      case True
      then obtain args where t: "t = TUnion args" by (cases t) simp_all
      show ?thesis
      proof (cases "filter (\<lambda>a. a \<noteq> TNoneType) args = []")
        case True
        with less.prems \<open>\<not> sk\<close> t show ?thesis by (simp add: get_arg_union_none)
      next
        case ne: False
        with less.prems \<open>\<not> sk\<close> t
        have "get_arg p (hd (filter (\<lambda>a. a \<noteq> TNoneType) args)) n None h d False = Inr a"
          by (simp add: get_arg_union)
        with less.hyps [OF _ this] first_variant_size [OF ne] t show ?thesis by simp
      qed
    qed
  qed
qed

lemma get_arg_no_shorthand:
  assumes "get_arg p t n None h d sk = Inr a"
  shows "shorthand a = None"
  using get_arg_fields [OF assms] by auto

section \<open>Registration, step by step\<close>

lemma update_new: "map_of al k = None \<Longrightarrow> AList.update k v al = al @ [(k, v)]"
  by (induction al) (auto split: if_splits)

lemma cli_arg_converter:
  assumes "map_of sig_types param = Some sig_type"
    and "map_of sig_defaults param = Some sig_default"
    and "map_of (converters self) sig_type = Some c
         \<or> (map_of (converters self) sig_type = None \<and> converter arg = Some c)"
    and "truthy c"
  shows "cli_arg self rt sig_types sig_defaults param arg =
     Inr \<lparr>id' = param, name = option arg, shorthand = short arg, type = c,
          default' = sig_default, action = None, choices = None,
          help' = Some (''('' @ get_type_name rt c @ '') '' @
                   (if truthy_str (help_Arg arg) then the (help_Arg arg) else []))\<rparr>"
proof -
  from assms(4) have nn: "c \<noteq> PyNone" by auto
  from assms(3) have conv:
    "(case map_of (converters self) sig_type of
        Some c \<Rightarrow> c
      | None \<Rightarrow> (case converter arg of Some c \<Rightarrow> c | None \<Rightarrow> PyNone)) = c"
    by auto
  show ?thesis
    using assms(1,2,4) nn by (simp add: cli_arg_def Let_def conv get_arg_skip)
qed

lemma cli_arg_fields:
  assumes "cli_arg self rt sig_types sig_defaults param arg = Inr a"
  shows "id' a = param \<and> name a = option arg
    \<and> (\<exists>t. map_of sig_types param = Some t)
    \<and> (\<exists>d. map_of sig_defaults param = Some d
          \<and> (if action a = Some ''store_true'' then default' a = PyBool False else default' a = d))"
proof -
  from assms obtain t where t: "map_of sig_types param = Some t"
    by (auto simp: cli_arg_def split: option.splits)
  from assms t obtain d where d: "map_of sig_defaults param = Some d"
    by (auto simp: cli_arg_def Let_def split: option.splits)
  from assms t d obtain ty sk a0 where
    g: "get_arg param ty (option arg) (short arg) (help_Arg arg) d sk = Inr a0"
    and a: "a = a0\<lparr>help' := Some (''('' @ get_type_name rt ty @ '') '' @
                           (if truthy_str (help' a0) then the (help' a0) else []))\<rparr>"
    by (auto simp: cli_arg_def Let_def split: sum.splits)
  from get_arg_fields [OF g] get_arg_default [OF g] a t d show ?thesis
    by auto
qed

lemma cli_args_loop_ids:
  "cli_args_loop self rt sig_types sig_defaults args = Inr cli_args \<Longrightarrow>
     map id' cli_args = map fst args"
proof (induction args arbitrary: cli_args)
  case Nil
  then show ?case by simp
next
  case (Cons x args)
  obtain param arg where x: "x = (param, arg)" by (cases x)
  from Cons.prems x obtain a rest where
    a: "cli_arg self rt sig_types sig_defaults param arg = Inr a"
    and r: "cli_args_loop self rt sig_types sig_defaults args = Inr rest"
    and c: "cli_args = a # rest"
    by (auto split: sum.splits)
  from cli_arg_fields [OF a] Cons.IH [OF r] c x show ?case by simp
qed

lemma cli_args_loop_each:
  "cli_args_loop self rt sig_types sig_defaults args = Inr cli_args \<Longrightarrow>
     (param, arg) \<in> set args \<Longrightarrow>
     \<exists>a \<in> set cli_args. cli_arg self rt sig_types sig_defaults param arg = Inr a"
proof (induction args arbitrary: cli_args)
  case Nil
  then show ?case by simp
next
  case (Cons x args)
  obtain param' arg' where x: "x = (param', arg')" by (cases x)
  from Cons.prems(1) x obtain a rest where
    a: "cli_arg self rt sig_types sig_defaults param' arg' = Inr a"
    and r: "cli_args_loop self rt sig_types sig_defaults args = Inr rest"
    and c: "cli_args = a # rest"
    by (auto split: sum.splits)
  show ?case
  proof (cases "(param, arg) = x")
    case True
    with a c x show ?thesis by auto
  next
    case False
    with Cons.prems(2) have "(param, arg) \<in> set args" by simp
    from Cons.IH [OF r this] c show ?thesis by auto
  qed
qed

lemma foldl_sig_step_frame:
  "foldl sig_step (st, sd, args) ps = (st', sd', args') \<Longrightarrow> p \<notin> fst ` set ps \<Longrightarrow>
     map_of st' p = map_of st p \<and> map_of sd' p = map_of sd p"
proof (induction ps arbitrary: st sd args)
  case Nil
  then show ?case by simp
next
  case (Cons x ps)
  obtain q v where x: "x = (q, v)" by (cases x)
  from Cons.prems(2) x have "p \<noteq> q" "p \<notin> fst ` set ps" by auto
  with Cons.IH [of "AList.update q (annotation v) st" _ _] Cons.prems(1) x
  show ?case by (auto simp: update_conv')
qed

lemma foldl_sig_step_lookup:
  "foldl sig_step (st, sd, args) ps = (st', sd', args') \<Longrightarrow> distinct (map fst ps) \<Longrightarrow>
     (p, v) \<in> set ps \<Longrightarrow>
     map_of st' p = Some (annotation v) \<and>
     map_of sd' p = Some (if default_P v \<noteq> Parameter_empty then default_P v else PyEllipsis)"
proof (induction ps arbitrary: st sd args)
  case Nil
  then show ?case by simp
next
  case (Cons x ps)
  obtain q w where x: "x = (q, w)" by (cases x)
  let ?st = "AList.update q (annotation w) st"
  let ?sd = "AList.update q (if default_P w \<noteq> Parameter_empty then default_P w else PyEllipsis) sd"
  let ?args = "if map_of args q = None then AList.update q Arg_default args else args"
  from Cons.prems(1) x have f: "foldl sig_step (?st, ?sd, ?args) ps = (st', sd', args')"
    by simp
  from Cons.prems(2) x have d: "distinct (map fst ps)" and q: "q \<notin> fst ` set ps" by auto
  show ?case
  proof (cases "(p, v) = (q, w)")
    case True
    with foldl_sig_step_frame [OF f q] show ?thesis by (simp add: update_conv')
  next
    case False
    with Cons.prems(3) x have "(p, v) \<in> set ps" by auto
    from Cons.IH [OF f d this] show ?thesis .
  qed
qed

lemma foldl_sig_step_keys:
  "foldl sig_step (st, sd, args) ps = (st', sd', args') \<Longrightarrow>
     fst ` set st' = fst ` set st \<union> fst ` set ps"
proof (induction ps arbitrary: st sd args)
  case Nil
  then show ?case by simp
next
  case (Cons x ps)
  obtain q w where x: "x = (q, w)" by (cases x)
  from Cons.prems x Cons.IH [of "AList.update q (annotation w) st" _ _]
  show ?case by (auto simp: dom_update)
qed

lemma foldl_sig_step_args:
  "foldl sig_step (st, sd, args) ps = (st', sd', args') \<Longrightarrow> distinct (map fst ps) \<Longrightarrow>
     args' = args @ map (\<lambda>p. (p, Arg_default)) (filter (\<lambda>p. p \<notin> fst ` set args) (map fst ps))"
proof (induction ps arbitrary: st sd args)
  case Nil
  then show ?case by simp
next
  case (Cons x ps)
  obtain q w where x: "x = (q, w)" by (cases x)
  let ?st = "AList.update q (annotation w) st"
  let ?sd = "AList.update q (if default_P w \<noteq> Parameter_empty then default_P w else PyEllipsis) sd"
  let ?args = "if map_of args q = None then AList.update q Arg_default args else args"
  from Cons.prems(1) x have f: "foldl sig_step (?st, ?sd, ?args) ps = (st', sd', args')"
    by simp
  from Cons.prems(2) x have d: "distinct (map fst ps)" and q: "q \<notin> set (map fst ps)" by auto
  note ih = Cons.IH [OF f d]
  show ?case
  proof (cases "map_of args q = None")
    case True
    then have qa: "q \<notin> fst ` set args" by (simp add: map_of_eq_None_iff)
    have a1: "?args = args @ [(q, Arg_default)]" using True by (simp add: update_new)
    have "filter (\<lambda>p. p \<notin> fst ` set ?args) (map fst ps)
        = filter (\<lambda>p. p \<notin> fst ` set args) (map fst ps)"
      using q a1 by (intro filter_cong) auto
    with ih a1 qa x show ?thesis by simp
  next
    case False
    then have "q \<in> fst ` set args" by (simp add: map_of_eq_None_iff)
    with ih False x show ?thesis by simp
  qed
qed

lemma cli_wrapper_registers:
  assumes "cli_wrapper self rt nm args allow cli_func = Inr self'"
  obtains sig_types sig_defaults args' cli_args where
    "foldl sig_step ([], [], args) (parameters cli_func) = (sig_types, sig_defaults, args')"
    and "cli_args_loop self rt sig_types sig_defaults args' = Inr cli_args"
    and "map_of (registry self') nm =
           Some \<lparr>cmd_name = nm, cmd_func = cli_func, cmd_args = cli_args,
                 cmd_description = doc cli_func, cmd_allow_extra = allow\<rparr>"
proof -
  obtain sig_types sig_defaults args' where
    f: "foldl sig_step ([], [], args) (parameters cli_func) = (sig_types, sig_defaults, args')"
    by (cases "foldl sig_step ([], [], args) (parameters cli_func)") auto
  with assms obtain cli_args where
    l: "cli_args_loop self rt sig_types sig_defaults args' = Inr cli_args"
    and s: "self' = self\<lparr>registry := AList.update nm
          \<lparr>cmd_name = nm, cmd_func = cli_func, cmd_args = cli_args,
            cmd_description = doc cli_func, cmd_allow_extra = allow\<rparr> (registry self)\<rparr>"
    by (auto simp: cli_wrapper_def Let_def split: sum.splits)
  from s have "map_of (registry self') nm =
           Some \<lparr>cmd_name = nm, cmd_func = cli_func, cmd_args = cli_args,
                 cmd_description = doc cli_func, cmd_allow_extra = allow\<rparr>"
    by (simp add: update_conv')
  with f l that show ?thesis by blast
qed

section \<open>Projection and parsing\<close>

lemma to_argparse_dest: "kw_dest (snd (to_argparse a)) = id' a"
  by (simp add: to_argparse_def Let_def)

lemma to_argparse_default:
  "kw_default (snd (to_argparse a)) = (if default' a = PyEllipsis then None else Some (default' a))"
  by (simp add: to_argparse_def Let_def)

lemma to_argparse_nargs:
  "kw_nargs (snd (to_argparse a)) =
     (if \<not> truthy_str (name a) \<and> default' a \<noteq> PyEllipsis then Some ''?'' else None)"
  by (simp add: to_argparse_def Let_def)

lemma add_arguments_grammar:
  "add_arguments self p arg_info = Inr p' \<Longrightarrow>
     arguments p' = arguments p @ map to_argparse (filter (\<lambda>a. id' a \<noteq> extra_key self) arg_info)
     \<and> description p' = description p"
proof (induction arg_info arbitrary: p)
  case Nil
  then show ?case by simp
next
  case (Cons arg arg_info)
  show ?case
  proof (cases "id' arg = extra_key self")
    case True
    with Cons show ?thesis by simp
  next
    case False
    with Cons.prems obtain p1 where
      p1: "add_argument p (fst (to_argparse arg)) (snd (to_argparse arg)) = Inr p1"
      and rest: "add_arguments self p1 arg_info = Inr p'"
      by (auto split: prod.splits sum.splits)
    from p1 have "arguments p1 = arguments p @ [to_argparse arg]" "description p1 = description p"
      by (auto simp: add_argument_def split: if_splits)
    with Cons.IH [OF rest] False show ?thesis by simp
  qed
qed

text \<open>Rule induction on a successful pass over the tokens: one case for the end of the
  list and one for each way a token is consumed.\<close>

lemma parse_tokens_success [consumes 1, case_names Nil Flag Value NoValue Unknown Extra Positional]:
  assumes run: "parse_tokens B G ns pos ex toks = Inr r"
    and Nil: "\<And>ns pos ex. \<not> list_ex required pos \<Longrightarrow> r = (ns, ex) \<Longrightarrow> P ns pos ex []"
    and Flag: "\<And>ns pos ex t ts spec.
        find (\<lambda>spec. t \<in> set (fst spec)) G = Some spec \<Longrightarrow>
        kw_action (snd spec) = Some ''store_true'' \<Longrightarrow>
        P (AList.update (kw_dest (snd spec)) (PyBool True) ns) pos ex ts \<Longrightarrow>
        P ns pos ex (t # ts)"
    and Value: "\<And>ns pos ex t v ts spec x.
        find (\<lambda>spec. t \<in> set (fst spec)) G = Some spec \<Longrightarrow>
        kw_action (snd spec) \<noteq> Some ''store_true'' \<Longrightarrow>
        plain v \<Longrightarrow> get_value B (snd spec) v = Some x \<Longrightarrow>
        P (take_action (snd spec) x ns) pos ex ts \<Longrightarrow>
        P ns pos ex (t # v # ts)"
    and NoValue: "\<And>ns pos ex t ts spec.
        find (\<lambda>spec. t \<in> set (fst spec)) G = Some spec \<Longrightarrow>
        kw_action (snd spec) \<noteq> Some ''store_true'' \<Longrightarrow>
        \<not> (ts \<noteq> [] \<and> plain (hd ts)) \<Longrightarrow> kw_nargs (snd spec) = Some ''?'' \<Longrightarrow>
        P (take_action (snd spec) PyNone ns) pos ex ts \<Longrightarrow>
        P ns pos ex (t # ts)"
    and Unknown: "\<And>ns pos ex t ts.
        find (\<lambda>spec. t \<in> set (fst spec)) G = None \<Longrightarrow> \<not> plain t \<Longrightarrow>
        P ns pos (ex @ [t]) ts \<Longrightarrow>
        P ns pos ex (t # ts)"
    and Extra: "\<And>ns ex t ts.
        find (\<lambda>spec. t \<in> set (fst spec)) G = None \<Longrightarrow> plain t \<Longrightarrow>
        P ns [] (ex @ [t]) ts \<Longrightarrow>
        P ns [] ex (t # ts)"
    and Positional: "\<And>ns spec pos ex t ts x.
        find (\<lambda>spec. t \<in> set (fst spec)) G = None \<Longrightarrow> plain t \<Longrightarrow>
        get_value B (snd spec) t = Some x \<Longrightarrow>
        P (take_action (snd spec) x ns) pos ex ts \<Longrightarrow>
        P ns (spec # pos) ex (t # ts)"
  shows "P ns pos ex toks"
  using run
proof (induction toks arbitrary: ns pos ex rule: length_induct)
  case (1 toks)
  have IH: "\<And>ys ns pos ex. length ys < length toks \<Longrightarrow>
      parse_tokens B G ns pos ex ys = Inr r \<Longrightarrow> P ns pos ex ys"
    using "1.IH" by blast
  show ?case
  proof (cases toks)
    case Nil
    with "1.prems" show ?thesis by (auto split: if_splits intro: assms(2))
  next
    case (Cons t ts)
    note toks = Cons
    show ?thesis
    proof (cases "find (\<lambda>spec. t \<in> set (fst spec)) G")
      case (Some spec)
      show ?thesis
      proof (cases "kw_action (snd spec) = Some ''store_true''")
        case True
        with "1.prems" Some toks have
          "parse_tokens B G (AList.update (kw_dest (snd spec)) (PyBool True) ns) pos ex ts
             = Inr r" by simp
        from IH [OF _ this] toks
        have "P (AList.update (kw_dest (snd spec)) (PyBool True) ns) pos ex ts" by simp
        then show ?thesis unfolding toks by (rule Flag [OF Some True])
      next
        case nf: False
        show ?thesis
        proof (cases "ts \<noteq> [] \<and> plain (hd ts)")
          case True
          then obtain v ts' where ts: "ts = v # ts'" and pv: "plain v" by (cases ts) auto
          from "1.prems" Some nf True toks obtain x where
            x: "get_value B (snd spec) (hd ts) = Some x"
            and r: "parse_tokens B G (take_action (snd spec) x ns) pos ex (tl ts) = Inr r"
            by (auto split: option.splits)
          from r ts have "parse_tokens B G (take_action (snd spec) x ns) pos ex ts' = Inr r"
            by simp
          from IH [OF _ this] toks ts
          have "P (take_action (snd spec) x ns) pos ex ts'" by simp
          moreover from x ts have "get_value B (snd spec) v = Some x" by simp
          ultimately show ?thesis unfolding toks ts using Value [OF Some nf pv] by blast
        next
          case nv: False
          with "1.prems" Some nf toks have q: "kw_nargs (snd spec) = Some ''?''"
            and r: "parse_tokens B G (take_action (snd spec) PyNone ns) pos ex ts = Inr r"
            by (auto split: if_splits)
          from IH [OF _ r] toks have "P (take_action (snd spec) PyNone ns) pos ex ts" by simp
          then show ?thesis unfolding toks by (rule NoValue [OF Some nf nv q])
        qed
      qed
    next
      case None
      show ?thesis
      proof (cases "plain t")
        case False
        with "1.prems" None toks have
          "parse_tokens B G ns pos (ex @ [t]) ts = Inr r" by simp
        from IH [OF _ this] toks have "P ns pos (ex @ [t]) ts" by simp
        then show ?thesis unfolding toks by (rule Unknown [OF None False])
      next
        case True
        show ?thesis
        proof (cases pos)
          case Nil
          with "1.prems" None True toks have
            "parse_tokens B G ns [] (ex @ [t]) ts = Inr r" by simp
          from IH [OF _ this] toks have "P ns [] (ex @ [t]) ts" by simp
          then show ?thesis unfolding toks Nil by (rule Extra [OF None True])
        next
          case (Cons spec pos')
          with "1.prems" None True toks obtain x where
            x: "get_value B (snd spec) t = Some x"
            and r: "parse_tokens B G (take_action (snd spec) x ns) pos' ex ts = Inr r"
            by (auto split: option.splits)
          from IH [OF _ r] toks have "P (take_action (snd spec) x ns) pos' ex ts" by simp
          then show ?thesis unfolding toks Cons by (rule Positional [OF None True x])
        qed
      qed
    qed
  qed
qed

lemma find_SomeD: "find P xs = Some x \<Longrightarrow> x \<in> set xs \<and> P x"
  by (auto simp: find_Some_iff)

lemma take_action_keys: "fst ` set (take_action kw x ns) = insert (kw_dest kw) (fst ` set ns)"
  by (simp add: take_action_def dom_update)

lemma parse_tokens_extras:
  assumes "parse_tokens B G ns pos ex toks = Inr (ns', ex')"
  shows "\<exists>e. ex' = ex @ e \<and> subseq e toks \<and>
         filter (\<lambda>t. \<not> plain t) e =
         filter (\<lambda>t. \<not> plain t \<and> find (\<lambda>spec. t \<in> set (fst spec)) G = None) toks"
  using assms
proof (induction rule: parse_tokens_success)
  case (Unknown ns pos ex t ts)
  then obtain e where "ex' = (ex @ [t]) @ e" "subseq e ts"
        "filter (\<lambda>t. \<not> plain t) e =
              filter (\<lambda>t. \<not> plain t \<and> find (\<lambda>spec. t \<in> set (fst spec)) G = None) ts"
    by blast
  with Unknown(1,2) show ?case by (intro exI [of _ "t # e"]) auto
next
  case (Extra ns ex t ts)
  then obtain e where "ex' = (ex @ [t]) @ e" "subseq e ts"
        "filter (\<lambda>t. \<not> plain t) e =
              filter (\<lambda>t. \<not> plain t \<and> find (\<lambda>spec. t \<in> set (fst spec)) G = None) ts"
    by blast
  with Extra(1,2) show ?case by (intro exI [of _ "t # e"]) auto
qed auto

lemma parse_tokens_keys:
  assumes "parse_tokens B G ns pos ex toks = Inr (ns', ex')"
  shows "set pos \<subseteq> set G \<Longrightarrow>
    fst ` set ns' \<subseteq> fst ` set ns \<union> (\<lambda>spec. kw_dest (snd spec)) ` set G"
  using assms
proof (induction rule: parse_tokens_success)
  case (Flag ns pos ex t ts spec)
  from find_SomeD [OF Flag(1)] Flag(3,4) show ?case by (auto simp: dom_update)
next
  case (Value ns pos ex t v ts spec x)
  from find_SomeD [OF Value(1)] Value(5,6) show ?case by (auto simp: take_action_keys)
next
  case (NoValue ns pos ex t ts spec)
  from find_SomeD [OF NoValue(1)] NoValue(5,6) show ?case by (auto simp: take_action_keys)
next
  case (Positional ns spec pos ex t ts x)
  then show ?case by (auto simp: take_action_keys)
qed auto

lemma parse_tokens_required:
  assumes "parse_tokens B G ns pos ex toks = Inr (ns', ex')"
  shows "length (filter required pos) \<le> length (filter plain toks)"
  using assms
proof (induction rule: parse_tokens_success)
  case (Nil ns pos ex)
  then show ?case by (simp add: list_ex_iff filter_empty_conv)
qed auto

lemma parse_tokens_append_unknown:
  assumes "parse_tokens B G ns pos ex toks = Inr (ns', ex')"
    and u: "find (\<lambda>spec. u \<in> set (fst spec)) G = None" "\<not> plain u"
  shows "parse_tokens B G ns pos ex (toks @ [u]) = Inr (ns', ex' @ [u])"
  using assms(1)
proof (induction rule: parse_tokens_success)
  case (Nil ns pos ex)
  with u show ?case by simp
next
  case (Value ns pos ex t v ts spec x)
  then show ?case by simp
next
  case (NoValue ns pos ex t ts spec)
  with u show ?case by (cases ts) auto
qed auto

text \<open>The equations that evaluate a registration on concrete input.\<close>

lemmas eval_defs = cli_wrapper_def cli_arg_def Radicli_init_def Arg_default_def
  Parameter_empty_def get_type_name_def Let_def get_arg_base get_arg_bool get_arg_skip
  BASE_TYPES_def to_argparse_def

section \<open>Claims about the type resolver\<close>

text \<open>
  Claim C3 (the code does not do this). Resolving \<^verbatim>\<open>Optional[str]\<close>, the union of
  \<^verbatim>\<open>str\<close> and \<^verbatim>\<open>type(None)\<close>, is to give the same descriptor as resolving \<^verbatim>\<open>str\<close>
  with the same inputs. With a shorthand in the override it does not: the recursive call
  for the union's variant passes name, help and default on and leaves the shorthand out,
  so the descriptor for \<^verbatim>\<open>Optional[str]\<close> has no shorthand where the one for \<^verbatim>\<open>str\<close>
  has \<^verbatim>\<open>-x\<close>. Every other field agrees.
\<close>

theorem optional_str_loses_shorthand:
  "get_arg ''x'' (TUnion [TStr, TNoneType]) None (Some ''-x'') None PyEllipsis False
     = Inr \<lparr>id' = ''x'', name = None, shorthand = None, type = TStr,
            default' = PyEllipsis, action = None, choices = None, help' = None\<rparr>
   \<and> get_arg ''x'' TStr None (Some ''-x'') None PyEllipsis False
     = Inr \<lparr>id' = ''x'', name = None, shorthand = Some ''-x'', type = TStr,
            default' = PyEllipsis, action = None, choices = None, help' = None\<rparr>"
  by (simp add: get_arg_union get_arg_base BASE_TYPES_def)

text \<open>For every input the resolution of \<^verbatim>\<open>Optional[str]\<close> is the resolution of \<^verbatim>\<open>str\<close>
  with the shorthand left out; the two are the same when no shorthand is given.\<close>

lemma optional_str_without_shorthand:
  "get_arg param (TUnion [TStr, TNoneType]) nm sh hlp dflt False
     = get_arg param TStr nm None hlp dflt False"
  by (simp add: get_arg_union)

text \<open>
  Claim C4. When a converter is supplied for a parameter, by the table under the exact
  declared type or else by the override, the declared type is not inspected: the loop
  body calls \<open>get_arg\<close> with \<^verbatim>\<open>skip_resolve\<close> set and returns a descriptor, never an
  \<^verbatim>\<open>UnsupportedTypeError\<close>, whatever the declared type \<open>sig_type\<close> is. The descriptor's
  type is the converter (the table's entry before the override's), its name and
  shorthand are the override's, its default is the one supplied, and its help is the
  override's help text behind the converter's name. A converter is a function or a
  class, which is true as a Python object.
\<close>

theorem converter_bypasses_resolution:
  assumes "map_of sig_types param = Some sig_type"
    and "map_of sig_defaults param = Some sig_default"
    and "map_of (converters self) sig_type = Some c
         \<or> (map_of (converters self) sig_type = None \<and> converter arg = Some c)"
    and "truthy c"
  shows "cli_arg self rt sig_types sig_defaults param arg =
     Inr \<lparr>id' = param, name = option arg, shorthand = short arg, type = c,
          default' = sig_default, action = None, choices = None,
          help' = Some (''('' @ get_type_name rt c @ '') '' @
                   (if truthy_str (help_Arg arg) then the (help_Arg arg) else []))\<rparr>
   \<and> get_arg param c (option arg) (short arg) (help_Arg arg) sig_default True =
     Inr \<lparr>id' = param, name = option arg, shorthand = short arg, type = c,
          default' = sig_default, action = None, choices = None, help' = help_Arg arg\<rparr>"
  using cli_arg_converter [OF assms] by (simp add: get_arg_skip)

theorem converter_bypasses_resolution_witness:
  "cli_arg (Radicli_init ''cli'' None [(TClass ''Foo'', PyFunction ''parse_foo'')] ''_extra'')
       \<lparr>dunder_name = (\<lambda>t. Some ''parse_foo''), str_of = (\<lambda>t. ''parse_foo'')\<rparr>
       [(''x'', TClass ''Foo'')] [(''x'', PyInt 1)] ''x''
       \<lparr>option = Some ''--x'', short = Some ''-x'', help_Arg = Some ''the x'', converter = None\<rparr>
     = Inr \<lparr>id' = ''x'', name = Some ''--x'', shorthand = Some ''-x'',
            type = PyFunction ''parse_foo'', default' = PyInt 1, action = None,
            choices = None, help' = Some ''(parse_foo) the x''\<rparr>
   \<and> get_arg ''x'' (TClass ''Foo'') (Some ''--x'') (Some ''-x'') (Some ''the x'') (PyInt 1) False
     = Inl (UnsupportedTypeError ''x'' (TClass ''Foo''))"
proof -
  let ?cli = "Radicli_init ''cli'' None [(TClass ''Foo'', PyFunction ''parse_foo'')] ''_extra''"
  let ?arg = "\<lparr>option = Some ''--x'', short = Some ''-x'', help_Arg = Some ''the x'',
                converter = None\<rparr>"
  have t: "map_of [(''x'', TClass ''Foo'')] ''x'' = Some (TClass ''Foo'')" by simp
  have d: "map_of [(''x'', PyInt 1)] ''x'' = Some (PyInt 1)" by simp
  have c: "map_of (converters ?cli) (TClass ''Foo'') = Some (PyFunction ''parse_foo'')
       \<or> (map_of (converters ?cli) (TClass ''Foo'') = None
           \<and> converter ?arg = Some (PyFunction ''parse_foo''))"
    by (simp add: Radicli_init_def)
  have tr: "truthy (PyFunction ''parse_foo'')" by simp
  from converter_bypasses_resolution [OF t d c tr,
      of "\<lparr>dunder_name = (\<lambda>t. Some ''parse_foo''), str_of = (\<lambda>t. ''parse_foo'')\<rparr>"]
  show ?thesis
    by (simp add: get_type_name_def get_arg_no_origin BASE_TYPES_def)
qed

text \<open>
  Claim C5. A parameter declared \<^verbatim>\<open>bool\<close>, resolved without a converter, always gives
  a flag descriptor: the action is \<^verbatim>\<open>store_true\<close> (presence only, no value token), no
  coercion type is kept, and the default is \<^verbatim>\<open>False\<close> whatever default \<open>dflt\<close> the
  function declares, \<^verbatim>\<open>True\<close> included. The projection for the backend carries the
  same three facts.
\<close>

theorem bool_resolves_to_flag:
  "get_arg param TBool nm sh hlp dflt False =
     Inr \<lparr>id' = param, name = nm, shorthand = sh, type = PyNone, default' = PyBool False,
          action = Some ''store_true'', choices = None, help' = hlp\<rparr>
   \<and> kw_action (snd (to_argparse \<lparr>id' = param, name = nm, shorthand = sh, type = PyNone,
          default' = PyBool False, action = Some ''store_true'', choices = None,
          help' = hlp\<rparr>)) = Some ''store_true''
   \<and> kw_type (snd (to_argparse \<lparr>id' = param, name = nm, shorthand = sh, type = PyNone,
          default' = PyBool False, action = Some ''store_true'', choices = None,
          help' = hlp\<rparr>)) = None
   \<and> kw_default (snd (to_argparse \<lparr>id' = param, name = nm, shorthand = sh, type = PyNone,
          default' = PyBool False, action = Some ''store_true'', choices = None,
          help' = hlp\<rparr>)) = Some (PyBool False)"
  by (simp add: get_arg_bool to_argparse_def Let_def)

lemma find_base_type_priority:
  "find_base_type args dt =
     (if TStr \<in> set args then TStr else if TInt \<in> set args then TInt
      else if TFloat \<in> set args then TFloat else if TPath \<in> set args then TPath else dt)"
  by (simp add: find_base_type_def BASE_TYPES_def)

text \<open>
  Claim C6. A declared \<^verbatim>\<open>List[...]\<close> or \<^verbatim>\<open>Iterable[...]\<close>, resolved without a
  converter, gives a descriptor with the repeated action \<^verbatim>\<open>append\<close> whose value type is
  found among the type arguments: the first of string, integer, float and path (the
  scan runs through the primitives in this order) that occurs among them, and string
  when none does. For the one type argument \<open>t\<close> that \<^verbatim>\<open>List[t]\<close> and \<^verbatim>\<open>Iterable[t]\<close>
  take, this is \<open>t\<close> itself when \<open>t\<close> is a primitive and string otherwise; a sequence of
  integers has value type integer.
\<close>

theorem sequence_resolves_to_repeated:
  "get_arg param (TList args) nm sh hlp dflt False =
     Inr \<lparr>id' = param, name = nm, shorthand = sh, type = find_base_type args TStr,
          default' = dflt, action = Some ''append'', choices = None, help' = hlp\<rparr>
   \<and> get_arg param (TIterable args) nm sh hlp dflt False =
     Inr \<lparr>id' = param, name = nm, shorthand = sh, type = find_base_type args TStr,
          default' = dflt, action = Some ''append'', choices = None, help' = hlp\<rparr>
   \<and> find_base_type args TStr =
     (if TStr \<in> set args then TStr else if TInt \<in> set args then TInt
      else if TFloat \<in> set args then TFloat else if TPath \<in> set args then TPath else TStr)
   \<and> find_base_type [t] TStr = (if t \<in> set BASE_TYPES then t else TStr)
   \<and> find_base_type [TInt] TStr = TInt"
  by (auto simp: get_arg_list get_arg_iterable find_base_type_priority BASE_TYPES_def)

text \<open>
  Claim C7, as amended. Without a converter the resolver raises
  \<^verbatim>\<open>UnsupportedTypeError\<close> exactly when the declared type cannot be reduced to a known
  primitive, a boolean flag, a non-empty literal set or a sequence, a union being reduced
  to its first non-null variant; a type that is not handled is never resolved as a
  string. The error carries the parameter name and the type on which resolution
  failed: the declared type itself when that is no union, and for a union the type
  reached through its first non-null variants.
\<close>

theorem unsupported_type_error:
  "((\<exists>a. get_arg param t nm sh hlp dflt False = Inr a) \<longleftrightarrow> reducible t)
   \<and> (\<not> reducible t \<longrightarrow>
        get_arg param t nm sh hlp dflt False = Inl (UnsupportedTypeError param (first_variant t)))
   \<and> (get_origin t \<noteq> Some OUnion \<longrightarrow> first_variant t = t)"
proof (intro conjI impI)
  show "(\<exists>a. get_arg param t nm sh hlp dflt False = Inr a) \<longleftrightarrow> reducible t"
  proof
    assume "\<exists>a. get_arg param t nm sh hlp dflt False = Inr a"
    then obtain a where ok: "get_arg param t nm sh hlp dflt False = Inr a" ..
    show "reducible t"
    proof (rule ccontr)
      assume "\<not> reducible t"
      then have "get_arg param t nm sh hlp dflt False
        = Inl (UnsupportedTypeError param (first_variant t))"
        unfolding reducible_def by (rule get_arg_unsupported)
      with ok show False by simp
    qed
  next
    assume "reducible t"
    then show "\<exists>a. get_arg param t nm sh hlp dflt False = Inr a"
      unfolding reducible_def by (rule get_arg_supported)
  qed
next
  assume "\<not> reducible t"
  then show "get_arg param t nm sh hlp dflt False = Inl (UnsupportedTypeError param (first_variant t))"
    unfolding reducible_def by (rule get_arg_unsupported)
next
  assume "get_origin t \<noteq> Some OUnion"
  then show "first_variant t = t" by (rule first_variant_not_union)
qed

theorem unsupported_type_error_witness:
  "\<not> reducible (TClass ''Foo'')
   \<and> get_arg ''x'' (TClass ''Foo'') None None None PyEllipsis False
       = Inl (UnsupportedTypeError ''x'' (TClass ''Foo''))
   \<and> first_variant (TClass ''Foo'') = TClass ''Foo''"
proof -
  have fv: "first_variant (TClass ''Foo'') = TClass ''Foo''"
    by (simp add: first_variant_not_union)
  have nr: "\<not> reducible (TClass ''Foo'')"
    by (simp add: reducible_def fv handled_def BASE_TYPES_def)
  from unsupported_type_error [of "''x''" "TClass ''Foo''" None None None PyEllipsis] nr fv
  show ?thesis by simp
qed

text \<open>As first stated, the claim has the error carry the declared type. For
  \<^verbatim>\<open>Optional[Foo]\<close> with an unsupported class \<^verbatim>\<open>Foo\<close> the error names \<^verbatim>\<open>Foo\<close>, the
  variant, not the declared union.\<close>

theorem unsupported_variant_counterexample:
  "get_arg ''x'' (TUnion [TClass ''Foo'', TNoneType]) None None None PyEllipsis False
     = Inl (UnsupportedTypeError ''x'' (TClass ''Foo''))
   \<and> TClass ''Foo'' \<noteq> TUnion [TClass ''Foo'', TNoneType]"
  by (simp add: get_arg_union get_arg_no_origin BASE_TYPES_def)

text \<open>
  Claim C9. When a union is resolved, the recursive call for its first non-null variant
  is given the external name, the help text and the default, and no shorthand: the
  descriptor that results is the one of that call, its shorthand is absent whatever
  shorthand \<open>sh\<close> the override supplied, and name and help are the ones supplied. The
  default is the one supplied too, unless the variant is a boolean flag, whose default
  is always \<^verbatim>\<open>False\<close>.
\<close>

theorem union_drops_shorthand:
  assumes "get_arg param (TUnion args) nm sh hlp dflt False = Inr a"
  shows "get_arg param (hd (filter (\<lambda>t. t \<noteq> TNoneType) args)) nm None hlp dflt False = Inr a
    \<and> shorthand a = None \<and> name a = nm \<and> help' a = hlp
    \<and> (if action a = Some ''store_true'' then default' a = PyBool False else default' a = dflt)"
proof -
  have ne: "filter (\<lambda>t. t \<noteq> TNoneType) args \<noteq> []"
  proof
    assume "filter (\<lambda>t. t \<noteq> TNoneType) args = []"
    then have "get_arg param (TUnion args) nm sh hlp dflt False
      = Inl (UnsupportedTypeError param (TUnion args))"
      by (rule get_arg_union_none)
    with assms show False by simp
  qed
  then have rec: "get_arg param (hd (filter (\<lambda>t. t \<noteq> TNoneType) args)) nm None hlp dflt False = Inr a"
    using assms by (simp add: get_arg_union)
  from get_arg_fields [OF rec] have "shorthand a = None" "name a = nm" "help' a = hlp"
    by auto
  with rec get_arg_default [OF rec] show ?thesis by simp
qed

theorem union_drops_shorthand_witness:
  "get_arg ''x'' (TUnion [TStr, TNoneType]) (Some ''--x'') (Some ''-x'') (Some ''the x'') PyNone False
     = Inr \<lparr>id' = ''x'', name = Some ''--x'', shorthand = None, type = TStr,
            default' = PyNone, action = None, choices = None, help' = Some ''the x''\<rparr>
   \<and> shorthand \<lparr>id' = ''x'', name = Some ''--x'', shorthand = None, type = TStr,
            default' = PyNone, action = None, choices = None, help' = Some ''the x''\<rparr> = None"
proof -
  have e: "get_arg ''x'' (TUnion [TStr, TNoneType]) (Some ''--x'') (Some ''-x'') (Some ''the x'') PyNone False
     = Inr \<lparr>id' = ''x'', name = Some ''--x'', shorthand = None, type = TStr,
            default' = PyNone, action = None, choices = None, help' = Some ''the x''\<rparr>"
    by (simp add: get_arg_union get_arg_base BASE_TYPES_def)
  from union_drops_shorthand [OF e] e show ?thesis by simp
qed

section \<open>Claims about registration\<close>

text \<open>
  Claim C1, as amended. A registered command has exactly one descriptor for each
  parameter of the function (parameter names are distinct, and so are the keys of the
  override mapping). Their order is the order of \<^verbatim>\<open>args.items()\<close>: first the parameters
  the override mapping mentions, in the order it mentions them, then the parameters it
  does not mention, in declared order. With an empty mapping that is the declared order.
\<close>

theorem descriptors_per_parameter:
  assumes reg: "cli_wrapper self rt nm args allow cli_func = Inr self'"
    and da: "distinct (map fst args)"
    and dp: "distinct (map fst (parameters cli_func))"
  shows "\<exists>cmd. map_of (registry self') nm = Some cmd
    \<and> map id' (cmd_args cmd) =
        map fst args @ filter (\<lambda>p. p \<notin> fst ` set args) (map fst (parameters cli_func))
    \<and> mset (map id' (cmd_args cmd)) = mset (map fst (parameters cli_func))
    \<and> (args = [] \<longrightarrow> map id' (cmd_args cmd) = map fst (parameters cli_func))"
proof -
  let ?names = "map fst (parameters cli_func)"
  let ?ids = "map fst args @ filter (\<lambda>p. p \<notin> fst ` set args) ?names"
  from reg obtain sig_types sig_defaults args' cli_args where
    f: "foldl sig_step ([], [], args) (parameters cli_func) = (sig_types, sig_defaults, args')"
    and l: "cli_args_loop self rt sig_types sig_defaults args' = Inr cli_args"
    and r: "map_of (registry self') nm =
           Some \<lparr>cmd_name = nm, cmd_func = cli_func, cmd_args = cli_args,
                 cmd_description = doc cli_func, cmd_allow_extra = allow\<rparr>"
    by (rule cli_wrapper_registers)
  have args': "args' = args @ map (\<lambda>p. (p, Arg_default)) (filter (\<lambda>p. p \<notin> fst ` set args) ?names)"
    using foldl_sig_step_args [OF f dp] .
  have ids: "map id' cli_args = ?ids"
    using cli_args_loop_ids [OF l] args' by (simp add: comp_def)
  have keys: "fst ` set sig_types = set ?names"
    using foldl_sig_step_keys [OF f] by simp
  have sub: "set (map fst args) \<subseteq> set ?names"
  proof
    fix p assume "p \<in> set (map fst args)"
    then obtain arg where "(p, arg) \<in> set args" by auto
    then have "(p, arg) \<in> set args'" using args' by simp
    from cli_args_loop_each [OF l this] obtain a where
      "cli_arg self rt sig_types sig_defaults p arg = Inr a" by blast
    from cli_arg_fields [OF this] obtain t where "map_of sig_types p = Some t" by blast
    then have "p \<in> fst ` set sig_types" by (metis map_of_eq_None_iff option.distinct(1))
    with keys show "p \<in> set ?names" by simp
  qed
  have d1: "distinct ?ids" using da dp by auto
  have s1: "set ?ids = set ?names" using sub by auto
  have m: "mset ?ids = mset ?names"
    using set_eq_iff_mset_eq_distinct [OF d1 dp] s1 by blast
  have e: "args = [] \<longrightarrow> ?ids = ?names" by simp
  have m': "mset (map id' cli_args) = mset ?names" by (simp only: ids m)
  have e': "args = [] \<longrightarrow> map id' cli_args = ?names" using e ids by simp
  show ?thesis
  proof (intro exI conjI)
    show "map_of (registry self') nm =
           Some \<lparr>cmd_name = nm, cmd_func = cli_func, cmd_args = cli_args,
                 cmd_description = doc cli_func, cmd_allow_extra = allow\<rparr>"
      by (rule r)
  next
    show "map id' (cmd_args \<lparr>cmd_name = nm, cmd_func = cli_func, cmd_args = cli_args,
                 cmd_description = doc cli_func, cmd_allow_extra = allow\<rparr>) = ?ids"
      using ids by simp
  next
    show "mset (map id' (cmd_args \<lparr>cmd_name = nm, cmd_func = cli_func, cmd_args = cli_args,
                 cmd_description = doc cli_func, cmd_allow_extra = allow\<rparr>)) = mset ?names"
      using m' by simp
  next
    show "args = [] \<longrightarrow> map id' (cmd_args \<lparr>cmd_name = nm, cmd_func = cli_func,
                 cmd_args = cli_args, cmd_description = doc cli_func,
                 cmd_allow_extra = allow\<rparr>) = ?names"
      using e' by simp
  qed
qed

theorem descriptors_per_parameter_witness:
  "\<exists>self'. cli_wrapper (Radicli_init ''cli'' None [] ''_extra'')
           \<lparr>dunder_name = (\<lambda>t. Some ''str''), str_of = (\<lambda>t. ''str'')\<rparr>
           ''f'' [(''b'', Arg_default)] False
           \<lparr>parameters = [(''a'', \<lparr>annotation = TStr, default_P = Parameter_empty\<rparr>),
                          (''b'', \<lparr>annotation = TStr, default_P = Parameter_empty\<rparr>)],
             doc = None\<rparr> = Inr self'
     \<and> (\<exists>cmd. map_of (registry self') ''f'' = Some cmd
          \<and> map id' (cmd_args cmd) = [''b'', ''a'']
          \<and> mset (map id' (cmd_args cmd)) = mset [''a'', ''b''])"
proof -
  let ?f = "\<lparr>parameters = [(''a'', \<lparr>annotation = TStr, default_P = Parameter_empty\<rparr>),
                          (''b'', \<lparr>annotation = TStr, default_P = Parameter_empty\<rparr>)],
             doc = None\<rparr>"
  have "\<exists>self'. cli_wrapper (Radicli_init ''cli'' None [] ''_extra'')
           \<lparr>dunder_name = (\<lambda>t. Some ''str''), str_of = (\<lambda>t. ''str'')\<rparr>
           ''f'' [(''b'', Arg_default)] False ?f = Inr self'"
    by (simp add: eval_defs)
  then obtain self' where e: "cli_wrapper (Radicli_init ''cli'' None [] ''_extra'')
           \<lparr>dunder_name = (\<lambda>t. Some ''str''), str_of = (\<lambda>t. ''str'')\<rparr>
           ''f'' [(''b'', Arg_default)] False ?f = Inr self'" ..
  have da: "distinct (map fst [(''b'', Arg_default)])" by simp
  have dp: "distinct (map fst (parameters ?f))" by simp
  from descriptors_per_parameter [OF e da dp] e show ?thesis
    by (simp del: mset.simps)
qed

text \<open>As first stated, the claim has the descriptors in declared order whatever the
  override mapping mentions. For a function of \<open>a\<close> and \<open>b\<close> whose decorator mentions
  only \<open>b\<close>, the descriptor of \<open>b\<close> comes first.\<close>

theorem descriptor_order_counterexample:
  "(case cli_wrapper (Radicli_init ''cli'' None [] ''_extra'')
           \<lparr>dunder_name = (\<lambda>t. Some ''str''), str_of = (\<lambda>t. ''str'')\<rparr>
           ''f'' [(''b'', Arg_default)] False
           \<lparr>parameters = [(''a'', \<lparr>annotation = TStr, default_P = Parameter_empty\<rparr>),
                          (''b'', \<lparr>annotation = TStr, default_P = Parameter_empty\<rparr>)],
             doc = None\<rparr> of
      Inl e \<Rightarrow> []
    | Inr cli \<Rightarrow> map (\<lambda>(n, cmd). map id' (cmd_args cmd)) (registry cli)) = [[''b'', ''a'']]
   \<and> [''b'', ''a''] \<noteq> map fst [(''a'', \<lparr>annotation = TStr, default_P = Parameter_empty\<rparr>),
                          (''b'', \<lparr>annotation = TStr, default_P = Parameter_empty\<rparr>)]"
  by (simp add: eval_defs)

end
